theory Spec2Isabelle
  imports Main "HOL-Library.AList" "HOL-Library.Sublist"
begin

section \<open>Values, exceptions and classes\<close>

text \<open>
  JSON values as the workers receive them from \<^verbatim>\<open>request.json()\<close>. A JSON object is a
  Python dict: an association list in insertion order.
\<close>

datatype json =
    JNull
  | JBool bool
  | JNum int
  | JStr string
  | JArr "json list"
  | JObj "(string \<times> json) list"

type_synonym json_dict = "(string \<times> json) list"

text \<open>
  The exceptions the handlers can meet. \<^verbatim>\<open>JsonDataException\<close> carries its
  \<^verbatim>\<open>message\<close>; \<^verbatim>\<open>CancelledError\<close> derives from \<^verbatim>\<open>BaseException\<close> only, so
  \<^verbatim>\<open>except Exception\<close> does not catch it.
\<close>

datatype exn =
    JsonDataException json
  | TypeError
  | ClientConnectionError
  | TimeoutError
  | RequestException
  | ClientPayloadError
  | ConnectionResetError
  | OtherException string
  | CancelledError

fun is_Exception :: "exn \<Rightarrow> bool" where
  "is_Exception CancelledError = False"
| "is_Exception _ = True"

text \<open>
  A payload class as \<^verbatim>\<open>from_json_msg\<close> sees its \<^verbatim>\<open>cls\<close> argument: the parameter names of
  \<^verbatim>\<open>inspect.signature(cls)\<close> and the constructor called with keyword arguments.
\<close>

record 'p pyclass =
  parameters :: "string list"
  init :: "json_dict \<Rightarrow> exn + 'p"

definition keys :: "json_dict \<Rightarrow> string set" where
  "keys d = fst ` set d"

section \<open>workers/whisper/data\_types.py\<close>

record InputData =
  audio_file :: json

text \<open>
  \<^verbatim>\<open>InputData(**kwargs)\<close>: the dataclass constructor has the single parameter
  \<^verbatim>\<open>audio_file\<close>; a missing or an unexpected keyword argument is a \<^verbatim>\<open>TypeError\<close>.
  The annotation \<^verbatim>\<open>str\<close> is not checked at run time.
\<close>

definition InputData_init :: "json_dict \<Rightarrow> exn + InputData" where
  "InputData_init kwargs =
     (case map_of kwargs ''audio_file'' of
        None \<Rightarrow> Inl TypeError
      | Some v \<Rightarrow>
          (if \<exists>k \<in> set (map fst kwargs). k \<noteq> ''audio_file'' then Inl TypeError
           else Inr \<lparr>audio_file = v\<rparr>))"

definition InputData_cls :: "InputData pyclass" where
  "InputData_cls = \<lparr>parameters = [''audio_file''], init = InputData_init\<rparr>"

definition for_test :: "InputData" where
  "for_test = \<lparr>audio_file = JStr ''misc/samples_jfk.mp3''\<rparr>"

definition generate_payload_json :: "InputData \<Rightarrow> json_dict" where
  "generate_payload_json self = [(''audio_file'', audio_file self)]"

definition count_workload :: "InputData \<Rightarrow> int" where
  "count_workload self = 11"

text \<open>
  The first loop of \<^verbatim>\<open>from_json_msg\<close>:
  \<^verbatim>\<open>for param in inspect.signature(cls).parameters:
      if param not in json_msg: errors[param] = "missing parameter"\<close>
  with the dict \<^verbatim>\<open>errors\<close> threaded through.
\<close>

fun missing_errors :: "string list \<Rightarrow> json_dict \<Rightarrow> json_dict \<Rightarrow> json_dict" where
  "missing_errors [] json_msg errors = errors"
| "missing_errors (param # ps) json_msg errors =
     missing_errors ps json_msg
       (if param \<notin> keys json_msg
        then AList.update param (JStr ''missing parameter'') errors
        else errors)"

definition from_json_msg :: "'p pyclass \<Rightarrow> json_dict \<Rightarrow> exn + 'p" where
  "from_json_msg cls json_msg =
     (let errors = missing_errors (parameters cls) json_msg []
      in if errors \<noteq> [] then Inl (JsonDataException (JObj errors))
         else init cls (filter (\<lambda>(k, v). k \<in> set (parameters cls)) json_msg))"

section \<open>aiohttp requests and responses\<close>

text \<open>
  What a handler reads of the model server's \<^verbatim>\<open>ClientResponse\<close>: its status, the
  result of \<^verbatim>\<open>await response.json()\<close>, and the body as the model server sent it: the
  chunks that arrived, in order, and the exception that reading past them raises when
  the stream broke instead of ending.
\<close>

record ClientResponse =
  status :: int
  json_body :: "exn + json"
  body_chunks :: "string list"
  body_error :: "exn option"

text \<open>
  \<^verbatim>\<open>StreamReader.readline\<close> over the bytes of the body: every line up to and including its
  newline and, when the stream ended (\<open>eof\<close>), the rest if there is one. \<open>acc\<close> is the
  line read so far, reversed.
\<close>

fun readlines :: "bool \<Rightarrow> string \<Rightarrow> string \<Rightarrow> string list" where
  "readlines eof acc [] = (if eof \<and> acc \<noteq> [] then [rev acc] else [])"
| "readlines eof acc (c # cs) =
     (if c = CHR 0x0A then rev (c # acc) # readlines eof [] cs
      else readlines eof (c # acc) cs)"

text \<open>
  What \<^verbatim>\<open>async for chunk in response.content\<close> yields: aiohttp iterates a
  \<^verbatim>\<open>StreamReader\<close> with \<^verbatim>\<open>readline\<close>, so the items are the lines of the body, followed by
  the exception if the stream broke.
\<close>

definition content :: "ClientResponse \<Rightarrow> string list \<times> exn option" where
  "content response =
     (readlines (body_error response = None) [] (concat (body_chunks response)),
      body_error response)"

text \<open>
  The \<^verbatim>\<open>web.Request\<close> as far as a handler uses it, the connection to the client: how many
  of the handler's output operations (\<^verbatim>\<open>prepare\<close>, each \<^verbatim>\<open>write\<close>, \<^verbatim>\<open>write_eof\<close>) the
  connection takes before it is lost and the next one raises; \<open>None\<close> when it is never
  lost.
\<close>

record web_request =
  accepts :: "nat option"

fun spend :: "nat option \<Rightarrow> nat option" where
  "spend None = None"
| "spend (Some n) = Some (n - 1)"

text \<open>
  The responses the handlers build: \<^verbatim>\<open>web.Response(status=.., body=..)\<close>,
  \<^verbatim>\<open>web.json_response(data=.., status=..)\<close> and a prepared \<^verbatim>\<open>web.StreamResponse\<close> with
  its content type.
\<close>

datatype web_response =
    Response int string
  | JsonResponse int json
  | StreamResponse string

fun status_of :: "web_response \<Rightarrow> int" where
  "status_of (Response code _) = code"
| "status_of (JsonResponse code _) = code"
| "status_of (StreamResponse _) = 200"

text \<open>
  The input and output a streaming handler performs, in order: preparing the client
  response, awaiting the next upstream chunk, writing a chunk to the client, and
  \<^verbatim>\<open>write_eof\<close>.
\<close>

datatype io =
    Prepare string
  | Recv string
  | Write string
  | WriteEof

fun received :: "io list \<Rightarrow> string list" where
  "received [] = []"
| "received (Write chunk # tr) = chunk # received tr"
| "received (_ # tr) = received tr"

text \<open>
  The largest number of chunks that were read from upstream and not yet written to the
  client at any point of a trace; \<open>cur\<close> is the number pending so far.
\<close>

fun max_pending :: "nat \<Rightarrow> io list \<Rightarrow> nat" where
  "max_pending cur [] = cur"
| "max_pending cur (Recv _ # tr) = max cur (max_pending (Suc cur) tr)"
| "max_pending cur (Write _ # tr) = max cur (max_pending (cur - 1) tr)"
| "max_pending cur (_ # tr) = max_pending cur tr"

record handler =
  endpoint :: string
  generate_response :: "web_request \<Rightarrow> ClientResponse \<Rightarrow> (exn + web_response) \<times> io list"

section \<open>workers/tgi/server.py and workers/hello\_world/server.py\<close>

text \<open>
  \<^verbatim>\<open>GenerateHandler.generate_response\<close>, the same text in both workers:
  \<^verbatim>\<open>match response.status:
      case 200: data = await response.json(); return web.json_response(data=data)
      case code: return web.Response(status=code)\<close>
\<close>

definition GenerateHandler_generate_response ::
  "web_request \<Rightarrow> ClientResponse \<Rightarrow> (exn + web_response) \<times> io list" where
  "GenerateHandler_generate_response request response =
     (if status response = 200
      then (case json_body response of
              Inl e \<Rightarrow> (Inl e, [])
            | Inr data \<Rightarrow> (Inr (JsonResponse 200 data), []))
      else (Inr (Response (status response) []), []))"

text \<open>
  The loop \<^verbatim>\<open>async for chunk in response.content: await res.write(chunk)\<close> over the items
  the iteration yields, with the operations the client connection still takes: the
  trace, what the connection takes afterwards, and whether a \<^verbatim>\<open>write\<close> raised.
\<close>

fun write_chunks :: "nat option \<Rightarrow> string list \<Rightarrow> io list \<times> nat option \<times> bool" where
  "write_chunks left [] = ([], left, False)"
| "write_chunks left (chunk # rest) =
     (if left = Some 0 then ([Recv chunk], left, True)
      else (let (tr, left', failed) = write_chunks (spend left) rest
            in (Recv chunk # Write chunk # tr, left', failed)))"

text \<open>
  \<^verbatim>\<open>GenerateStreamHandler.generate_response\<close>, the same text in both workers. Nothing in
  it catches an exception: one raised by \<^verbatim>\<open>res.prepare\<close>, by the iteration, by
  \<^verbatim>\<open>res.write\<close> or by \<^verbatim>\<open>res.write_eof\<close> leaves the method at that point.
\<close>

definition GenerateStreamHandler_generate_response ::
  "web_request \<Rightarrow> ClientResponse \<Rightarrow> (exn + web_response) \<times> io list" where
  "GenerateStreamHandler_generate_response request response =
     (if status response = 200
      then
        (if accepts request = Some 0 then (Inl ConnectionResetError, [])
         else
           (let (items, err) = content response;
                (tr, left, failed) = write_chunks (spend (accepts request)) items;
                prepared = Prepare ''text/event-stream'' # tr
            in if failed then (Inl ConnectionResetError, prepared)
               else
                 (case err of
                    Some e \<Rightarrow> (Inl e, prepared)
                  | None \<Rightarrow>
                      if left = Some 0 then (Inl ConnectionResetError, prepared)
                      else (Inr (StreamResponse ''text/event-stream''),
                            prepared @ [WriteEof]))))
      else (Inr (Response (status response) []), []))"

definition GenerateHandler :: handler where
  "GenerateHandler =
     \<lparr>endpoint = ''/generate'', generate_response = GenerateHandler_generate_response\<rparr>"

definition GenerateStreamHandler :: handler where
  "GenerateStreamHandler =
     \<lparr>endpoint = ''/generate_stream'',
      generate_response = GenerateStreamHandler_generate_response\<rparr>"

text \<open>
  \<^verbatim>\<open>try: return await backend.handle_request(...)
  except Exception as e: return web.Response(status=500)\<close>
  applied to the outcome of the backend call and the state it leaves.
\<close>

definition except_Exception_500 ::
  "(exn + web_response) \<times> 's \<Rightarrow> (exn + web_response) \<times> 's" where
  "except_Exception_500 r =
     (case r of
        (Inl e, s') \<Rightarrow> if is_Exception e then (Inr (Response 500 []), s') else (Inl e, s')
      | (Inr res, s') \<Rightarrow> (Inr res, s'))"

text \<open>
  The four \<^verbatim>\<open>handle_request\<close> methods. \<^verbatim>\<open>get_data_from_request\<close> (of
  \<^verbatim>\<open>lib.data_types.EndpointHandler\<close>) and \<^verbatim>\<open>backend.handle_request\<close> (of
  \<^verbatim>\<open>lib.backend.Backend\<close>) are parameters; \<open>request_json\<close> is the outcome of
  \<^verbatim>\<open>await request.json()\<close>, and \<open>s\<close> is whatever state the backend keeps. An
  \<open>Inl\<close> result is an exception that leaves the handler.
\<close>

definition tgi_GenerateHandler_handle_request ::
  "handler \<Rightarrow> (json \<Rightarrow> exn + 'a \<times> 'p)
   \<Rightarrow> (handler \<Rightarrow> 'a \<Rightarrow> 'p \<Rightarrow> 's \<Rightarrow> (exn + web_response) \<times> 's)
   \<Rightarrow> exn + json \<Rightarrow> 's \<Rightarrow> (exn + web_response) \<times> 's" where
  "tgi_GenerateHandler_handle_request self get_data_from_request backend_handle_request
       request_json s =
     (case request_json of
        Inl e \<Rightarrow> (Inl e, s)
      | Inr data \<Rightarrow>
          (case get_data_from_request data of
             Inl e \<Rightarrow>
               (case e of
                  JsonDataException message \<Rightarrow> (Inr (JsonResponse 422 message), s)
                | _ \<Rightarrow> (Inl e, s))
           | Inr (auth_data, payload) \<Rightarrow>
               except_Exception_500 (backend_handle_request self auth_data payload s)))"

definition tgi_GenerateStreamHandler_handle_request ::
  "handler \<Rightarrow> (json \<Rightarrow> exn + 'a \<times> 'p)
   \<Rightarrow> (handler \<Rightarrow> 'a \<Rightarrow> 'p \<Rightarrow> 's \<Rightarrow> (exn + web_response) \<times> 's)
   \<Rightarrow> exn + json \<Rightarrow> 's \<Rightarrow> (exn + web_response) \<times> 's" where
  "tgi_GenerateStreamHandler_handle_request self get_data_from_request backend_handle_request
       request_json s =
     (case request_json of
        Inl e \<Rightarrow> (Inl e, s)
      | Inr data \<Rightarrow>
          (case get_data_from_request data of
             Inl e \<Rightarrow> (Inl e, s)
           | Inr (auth_data, payload) \<Rightarrow>
               except_Exception_500 (backend_handle_request self auth_data payload s)))"

definition hello_world_GenerateHandler_handle_request ::
  "handler \<Rightarrow> (json \<Rightarrow> exn + 'a \<times> 'p)
   \<Rightarrow> (handler \<Rightarrow> 'a \<Rightarrow> 'p \<Rightarrow> 's \<Rightarrow> (exn + web_response) \<times> 's)
   \<Rightarrow> exn + json \<Rightarrow> 's \<Rightarrow> (exn + web_response) \<times> 's" where
  "hello_world_GenerateHandler_handle_request self get_data_from_request backend_handle_request
       request_json s =
     (case request_json of
        Inl e \<Rightarrow> (Inl e, s)
      | Inr data \<Rightarrow>
          (case get_data_from_request data of
             Inl e \<Rightarrow> (Inl e, s)
           | Inr (auth_data, payload) \<Rightarrow>
               except_Exception_500 (backend_handle_request self auth_data payload s)))"

definition hello_world_GenerateStreamHandler_handle_request ::
  "handler \<Rightarrow> (json \<Rightarrow> exn + 'a \<times> 'p)
   \<Rightarrow> (handler \<Rightarrow> 'a \<Rightarrow> 'p \<Rightarrow> 's \<Rightarrow> (exn + web_response) \<times> 's)
   \<Rightarrow> exn + json \<Rightarrow> 's \<Rightarrow> (exn + web_response) \<times> 's" where
  "hello_world_GenerateStreamHandler_handle_request self get_data_from_request
       backend_handle_request request_json s =
     (case request_json of
        Inl e \<Rightarrow> (Inl e, s)
      | Inr data \<Rightarrow>
          (case get_data_from_request data of
             Inl e \<Rightarrow>
               (case e of
                  JsonDataException message \<Rightarrow> (Inr (JsonResponse 422 message), s)
                | _ \<Rightarrow> (Inl e, s))
           | Inr (auth_data, payload) \<Rightarrow>
               except_Exception_500 (backend_handle_request self auth_data payload s)))"

section \<open>workers/whisper/server.py\<close>

definition AsrHandler_generate_client_response ::
  "web_request \<Rightarrow> ClientResponse \<Rightarrow> (exn + web_response) \<times> io list" where
  "AsrHandler_generate_client_response client_request model_response =
     (if status model_response = 200
      then (case json_body model_response of
              Inl e \<Rightarrow> (Inl e, [])
            | Inr data \<Rightarrow> (Inr (JsonResponse 200 data), []))
      else (Inr (Response (status model_response) []), []))"

definition AsrHandler :: handler where
  "AsrHandler = \<lparr>endpoint = ''/asr'', generate_response = AsrHandler_generate_client_response\<rparr>"

section \<open>tgi\_backend.py\<close>

text \<open>
  What \<^verbatim>\<open>requests.post(..., stream=True)\<close> does: it raises, or it returns a response with a
  status code whose \<^verbatim>\<open>iter_lines()\<close> yields the given lines and then ends, or raises the
  given exception when the stream breaks.
\<close>

datatype upstream =
    PostRaises exn
  | PostReturns int "string list" "exn option"

datatype backend_event =
    start_req json json
  | post json_dict
  | finish_req json json

text \<open>
  One run of a generator that its consumer started: the lines it reads and the chunks it
  yields, in order, what it does to the backend, and the exception that leaves it, if one
  does.
\<close>

record gen_run =
  steps :: "io list"
  events :: "backend_event list"
  raised :: "exn option"

definition yielded :: "gen_run \<Rightarrow> string list" where
  "yielded run = received (steps run)"

text \<open>
  \<^verbatim>\<open>for byte_payload in response.iter_lines(): yield byte_payload; yield "\n"\<close>
  The consumer either takes every chunk (\<open>None\<close>) or closes the generator after it has
  taken one chunk more than the given number; the generator is then suspended at that
  \<^verbatim>\<open>yield\<close> and \<^verbatim>\<open>GeneratorExit\<close> ends it there. The result is the trace and whether
  the generator was closed.
\<close>

fun yield_lines :: "nat option \<Rightarrow> string list \<Rightarrow> io list \<times> bool" where
  "yield_lines closed_after [] = ([], False)"
| "yield_lines closed_after (byte_payload # rest) =
     (if closed_after = Some 0 then ([Recv byte_payload, Write byte_payload], True)
      else if closed_after = Some 1
        then ([Recv byte_payload, Write byte_payload, Write [CHR 0x0A]], True)
      else (let (tr, closed) = yield_lines (map_option (\<lambda>n. n - 2) closed_after) rest
            in (Recv byte_payload # Write byte_payload # Write [CHR 0x0A] # tr, closed)))"

text \<open>
  \<^verbatim>\<open>hf_tgi_wrapper\<close>. The \<^verbatim>\<open>try\<close> spans the call, the loop and \<^verbatim>\<open>finish_req\<close>, and the
  \<^verbatim>\<open>except\<close> catches \<^verbatim>\<open>RequestException\<close> only: after a caught exception, another
  exception or a close, \<^verbatim>\<open>finish_req\<close> is not reached.
\<close>

definition hf_tgi_wrapper :: "json \<Rightarrow> json \<Rightarrow> upstream \<Rightarrow> nat option \<Rightarrow> gen_run" where
  "hf_tgi_wrapper inputs parameters' up closed_after =
     (let hf_prompt = [(''inputs'', inputs), (''parameters'', parameters')];
          started = [start_req inputs parameters', post hf_prompt]
      in case up of
           PostRaises e \<Rightarrow>
             (if e = RequestException
              then \<lparr>steps = [], events = started, raised = None\<rparr>
              else \<lparr>steps = [], events = started, raised = Some e\<rparr>)
         | PostReturns status_code lines err \<Rightarrow>
             (if status_code = 200
              then
                (let (tr, closed) = yield_lines closed_after lines
                 in if closed then \<lparr>steps = tr, events = started, raised = None\<rparr>
                    else
                      (case err of
                         Some e \<Rightarrow>
                           (if e = RequestException
                            then \<lparr>steps = tr, events = started, raised = None\<rparr>
                            else \<lparr>steps = tr, events = started, raised = Some e\<rparr>)
                       | None \<Rightarrow>
                           \<lparr>steps = tr, events = started @ [finish_req inputs parameters'],
                            raised = None\<rparr>))
              else \<lparr>steps = [], events = started @ [finish_req inputs parameters'],
                    raised = None\<rparr>))"

text \<open>
  \<^verbatim>\<open>flask.Response(generator)\<close>: the status is the constructor's default, 200, fixed
  before the generator runs; the body is the run of the generator.
\<close>

record flask_response =
  status_code :: int
  body :: gen_run

definition flask_Response :: "gen_run \<Rightarrow> flask_response" where
  "flask_Response gen = \<lparr>status_code = 200, body = gen\<rparr>"

datatype key_error = KeyError string

definition generate_stream ::
  "json_dict \<Rightarrow> upstream \<Rightarrow> nat option \<Rightarrow> key_error + flask_response" where
  "generate_stream model_request up closed_after =
     (case map_of model_request ''inputs'' of
        None \<Rightarrow> Inl (KeyError ''inputs'')
      | Some inputs \<Rightarrow>
          (case map_of model_request ''parameters'' of
             None \<Rightarrow> Inl (KeyError ''parameters'')
           | Some parameters' \<Rightarrow> Inr (flask_Response (hf_tgi_wrapper inputs parameters' up closed_after))))"

text \<open>
  \<^verbatim>\<open>health_handler\<close>, \<^verbatim>\<open>info_handler\<close> and \<^verbatim>\<open>metrics_handler\<close> share one shape; the
  status and optional body they return for the outcome of \<^verbatim>\<open>requests.get\<close>, given the
  body a 200 answer carries.
\<close>

definition passthrough_handler ::
  "(string \<Rightarrow> string) \<Rightarrow> exn + int \<times> string \<Rightarrow> exn + int \<times> string option" where
  "passthrough_handler ok_body got =
     (case got of
        Inl e \<Rightarrow> if e = RequestException then Inr (500, None) else Inl e
      | Inr (code, content') \<Rightarrow>
          if code = 200 then Inr (200, Some (ok_body content')) else Inr (code, None))"

definition health_handler :: "exn + int \<times> string \<Rightarrow> exn + int \<times> string option" where
  "health_handler = passthrough_handler (\<lambda>_. [])"

definition info_handler :: "exn + int \<times> string \<Rightarrow> exn + int \<times> string option" where
  "info_handler = passthrough_handler (\<lambda>content'. content')"

definition metrics_handler :: "exn + int \<times> string \<Rightarrow> exn + int \<times> string option" where
  "metrics_handler = passthrough_handler (\<lambda>content'. content')"

section \<open>The log actions the workers configure\<close>

text \<open>
  \<^verbatim>\<open>LogAction\<close> is imported from \<^verbatim>\<open>lib.backend\<close>; the three members the workers use.
\<close>

datatype LogAction = ModelLoaded | Info | ModelError

text \<open>The \<^verbatim>\<open>log_actions\<close> argument of each worker's \<^verbatim>\<open>Backend(...)\<close>.\<close>

definition whisper_log_actions :: "(LogAction \<times> string) list" where
  "whisper_log_actions =
     [(ModelLoaded, ''Application startup complete.''),
      (Info, ''100%''),
      (ModelError, ''CUDA error''),
      (ModelError, ''CUDA out of memory'')]"

definition tgi_log_actions :: "(LogAction \<times> string) list" where
  "tgi_log_actions =
     [(ModelLoaded, ''\"message\":\"Connected\",\"target\":\"text_generation_router\"''),
      (Info, ''\"message\":\"Download''),
      (ModelError, ''Error: WebserverFailed''),
      (ModelError, ''Error: DownloadError'')]"

definition hello_world_log_actions :: "(LogAction \<times> string) list" where
  "hello_world_log_actions =
     [(ModelLoaded, ''infer server has started''),
      (Info, ''\"message\":\"Download''),
      (ModelError, ''Exception: corrupted model file'')]"

section \<open>The readiness monitor and the fail-fast check\<close>

text \<open>
  Modelled from the spec: the Health State that \<^verbatim>\<open>lib/backend.py\<close> keeps, with the four
  values of section 3.
\<close>

datatype health_state = Starting | Loading | Ready | Crashed

text \<open>
  Modelled from the spec: \<^verbatim>\<open>lib/backend.py\<close>, which reads the log and matches it against
  \<^verbatim>\<open>log_actions\<close>, is not among the sources. Section 4.1: matching is substring
  containment.
\<close>

fun contains :: "string \<Rightarrow> string \<Rightarrow> bool" where
  "contains msg [] = (msg = [])"
| "contains msg (c # cs) = (prefix msg (c # cs) \<or> contains msg cs)"

text \<open>
  Modelled from the spec: the effect of one matching rule on the Health State, which
  \<^verbatim>\<open>lib/backend.py\<close> would define. Section 4.1: \<open>ModelLoaded\<close> takes \<open>Loading\<close> to
  \<open>Ready\<close> and is idempotent on repeat, \<open>Info\<close> changes nothing, \<open>ModelError\<close> takes any
  state to \<open>Crashed\<close>; section 3: \<open>Crashed\<close> is absorbing.
\<close>

fun apply_action :: "LogAction \<Rightarrow> health_state \<Rightarrow> health_state" where
  "apply_action ModelError h = Crashed"
| "apply_action ModelLoaded Loading = Ready"
| "apply_action ModelLoaded h = h"
| "apply_action Info h = h"

text \<open>
  Modelled from the spec: the per-line handler of \<^verbatim>\<open>lib/backend.py\<close>. Section 4.1: each
  line is evaluated against all rules, in their order, and multiple matches on one line
  all apply.
\<close>

fun handle_log_line :: "(LogAction \<times> string) list \<Rightarrow> string \<Rightarrow> health_state \<Rightarrow> health_state" where
  "handle_log_line [] log_line h = h"
| "handle_log_line ((action, msg) # rules) log_line h =
     handle_log_line rules log_line (if contains msg log_line then apply_action action h else h)"

text \<open>
  Modelled from the spec: the part of the state of \<^verbatim>\<open>lib.backend.Backend\<close> that the
  fail-fast check reads and writes: the Health State, and how many upstream calls were
  issued so far.
\<close>

record backend_state =
  health :: health_state
  upstream_calls :: nat

text \<open>
  Modelled from the spec: \<^verbatim>\<open>Backend.handle_request\<close> of \<^verbatim>\<open>lib/backend.py\<close>, as far as
  section 4.4 fixes it. Step 2: a Health State other than \<open>Ready\<close> fails fast with a
  server-unavailable response (503 here) and nothing is forwarded. Steps 5 to 8: the
  upstream call is issued; a transport failure gives a generic server error, a response
  goes through the handler's \<open>generate_response\<close>. \<open>upstream\<close> is what the upstream
  call does.
\<close>

definition Backend_handle_request ::
  "handler \<Rightarrow> web_request \<Rightarrow> exn + ClientResponse \<Rightarrow> backend_state
   \<Rightarrow> (exn + web_response) \<times> backend_state" where
  "Backend_handle_request h request upstream s =
     (if health s \<noteq> Ready then (Inr (Response 503 []), s)
      else
        (let s' = s\<lparr>upstream_calls := Suc (upstream_calls s)\<rparr>
         in case upstream of
              Inl e \<Rightarrow> (Inr (Response 500 []), s')
            | Inr response \<Rightarrow> (fst (generate_response h request response), s')))"

text \<open>
  Modelled from the spec: the process as section 5 describes it, one reactor that takes
  log lines (the Readiness Monitor) and requests (the Request Pipeline) one at a time.
  The run collects the answer to every request.
\<close>

datatype event =
    LogLine string
  | Request handler web_request "exn + ClientResponse"

fun run ::
  "(LogAction \<times> string) list \<Rightarrow> event list \<Rightarrow> backend_state
   \<Rightarrow> (exn + web_response) list \<times> backend_state" where
  "run rules [] s = ([], s)"
| "run rules (LogLine log_line # evs) s =
     run rules evs (s\<lparr>health := handle_log_line rules log_line (health s)\<rparr>)"
| "run rules (Request h request upstream # evs) s =
     (let (answer, s') = Backend_handle_request h request upstream s;
          (answers, s'') = run rules evs s'
      in (answer # answers, s''))"

text \<open>The number of requests among the events.\<close>

fun requests_in :: "event list \<Rightarrow> nat" where
  "requests_in [] = 0"
| "requests_in (LogLine _ # evs) = requests_in evs"
| "requests_in (Request _ _ _ # evs) = Suc (requests_in evs)"

section \<open>The concurrency gate\<close>

text \<open>
  Modelled from the spec: the two modes of the gate of \<^verbatim>\<open>lib/backend.py\<close>, section 4.2.
\<close>

datatype gate_mode = Parallel | Exclusive

text \<open>
  Modelled from the spec: what happens at the gate of \<^verbatim>\<open>lib/backend.py\<close>: a request is submitted, or the response of a request in
  flight is fully drained, with success or failure. What the gate lets happen upstream:
  a call starts, a call is finished.
\<close>

datatype gate_event =
    Submit nat
  | Drained nat bool

datatype upstream_event =
    Started nat
  | Finished nat bool

text \<open>
  Modelled from the spec: the gate's state, the requests in flight and those waiting, both
  in arrival order, with the upstream events so far.
\<close>

record gate =
  in_flight :: "nat list"
  waiting :: "nat list"
  trace :: "upstream_event list"

definition gate_init :: gate where
  "gate_init = \<lparr>in_flight = [], waiting = [], trace = []\<rparr>"

text \<open>
  Modelled from the spec: the gate of \<^verbatim>\<open>lib/backend.py\<close> (the workers only pass
  \<^verbatim>\<open>allow_parallel_requests\<close>). Section 4.2: in Parallel mode every admitted request
  proceeds at once; in Exclusive mode at most one request is in flight until its response
  is fully drained, further requests queue in arrival order and are released one at a
  time as the prior request completes, regardless of success or failure.
\<close>

fun gate_step :: "gate_mode \<Rightarrow> gate \<Rightarrow> gate_event \<Rightarrow> gate" where
  "gate_step mode g (Submit r) =
     (if mode = Parallel \<or> (in_flight g = [] \<and> waiting g = [])
      then g\<lparr>in_flight := in_flight g @ [r], trace := trace g @ [Started r]\<rparr>
      else g\<lparr>waiting := waiting g @ [r]\<rparr>)"
| "gate_step mode g (Drained r ok) =
     (if r \<notin> set (in_flight g) then g
      else
        (case waiting g of
           [] \<Rightarrow> g\<lparr>in_flight := remove1 r (in_flight g), trace := trace g @ [Finished r ok]\<rparr>
         | q # qs \<Rightarrow>
             g\<lparr>in_flight := remove1 r (in_flight g) @ [q], waiting := qs,
               trace := trace g @ [Finished r ok, Started q]\<rparr>))"

text \<open>
  Modelled from the spec: the gate after a sequence of events, taken one at a time as the
  single reactor of section 5 does.
\<close>

definition gate_run :: "gate_mode \<Rightarrow> gate_event list \<Rightarrow> gate" where
  "gate_run mode evs = foldl (gate_step mode) gate_init evs"

text \<open>
  Modelled from the spec: the Exclusive gate while the request in flight completes, once
  for each flag, with the success or failure that the flag gives; nothing new is
  submitted meanwhile.
\<close>

fun drain :: "bool list \<Rightarrow> gate \<Rightarrow> gate" where
  "drain [] g = g"
| "drain (ok # oks) g =
     (case in_flight g of
        [] \<Rightarrow> g
      | r # _ \<Rightarrow> drain oks (gate_step Exclusive g (Drained r ok)))"

text \<open>
  The requests in their order of arrival, of start and of completion.
\<close>

fun submitted :: "gate_event list \<Rightarrow> nat list" where
  "submitted [] = []"
| "submitted (Submit r # evs) = r # submitted evs"
| "submitted (Drained _ _ # evs) = submitted evs"

fun started :: "upstream_event list \<Rightarrow> nat list" where
  "started [] = []"
| "started (Started r # tr) = r # started tr"
| "started (Finished _ _ # tr) = started tr"

fun finished :: "upstream_event list \<Rightarrow> nat list" where
  "finished [] = []"
| "finished (Finished r _ # tr) = r # finished tr"
| "finished (Started _ # tr) = finished tr"

text \<open>
  A trace in which calls never overlap: each started call is finished before the next
  one starts. The second argument is the call in flight, if any.
\<close>

fun serial :: "upstream_event list \<Rightarrow> nat option \<Rightarrow> bool" where
  "serial [] cur = True"
| "serial (Started r # tr) cur = (cur = None \<and> serial tr (Some r))"
| "serial (Finished r ok # tr) cur = (cur = Some r \<and> serial tr None)"

text \<open>
  The call in flight after a trace, given the one in flight before it.
\<close>

fun current :: "upstream_event list \<Rightarrow> nat option \<Rightarrow> nat option" where
  "current [] cur = cur"
| "current (Started r # tr) cur = current tr (Some r)"
| "current (Finished r ok # tr) cur = current tr None"

text \<open>
  The invariant of the Exclusive gate after the events \<open>evs\<close>: calls never overlap, the
  request in flight is the one the trace left open, nothing waits while nothing is in
  flight, requests were started in the order of their arrival, and finished in the order
  of their start.
\<close>

definition gate_inv :: "gate_event list \<Rightarrow> gate \<Rightarrow> bool" where
  "gate_inv evs g \<longleftrightarrow>
     serial (trace g) None
     \<and> in_flight g = (case current (trace g) None of None \<Rightarrow> [] | Some r \<Rightarrow> [r])
     \<and> (in_flight g = [] \<longrightarrow> waiting g = [])
     \<and> started (trace g) @ waiting g = submitted evs
     \<and> finished (trace g) @ in_flight g = started (trace g)"

section \<open>Payload validation: \<open>from_json_msg\<close> and \<open>count_workload\<close>\<close>

lemma keys_Nil: "keys [] = {}"
  by (simp add: keys_def)

lemma keys_map_of: "k \<in> keys j \<longleftrightarrow> map_of j k \<noteq> None"
  by (simp add: keys_def map_of_eq_None_iff)

lemma missing_errors_keys:
  "keys (missing_errors ps j errs) = keys errs \<union> {p \<in> set ps. p \<notin> keys j}"
  by (induction ps arbitrary: errs) (auto simp: keys_def dom_update)

lemma update_values:
  "(k, r) \<in> set (AList.update p v errs) \<Longrightarrow> r = v \<or> (k, r) \<in> set errs"
  by (induction errs) (auto split: if_splits)

lemma missing_errors_values:
  "(k, r) \<in> set (missing_errors ps j errs)
   \<Longrightarrow> r = JStr ''missing parameter'' \<or> (k, r) \<in> set errs"
  by (induction ps arbitrary: errs) (auto dest: update_values split: if_splits)

lemma missing_errors_distinct:
  "distinct (map fst errs) \<Longrightarrow> distinct (map fst (missing_errors ps j errs))"
  by (induction ps arbitrary: errs) (simp_all add: distinct_update)

lemma missing_errors_empty_iff:
  "missing_errors ps j [] = [] \<longleftrightarrow> set ps \<subseteq> keys j"
proof -
  have "missing_errors ps j [] = [] \<longleftrightarrow> keys (missing_errors ps j []) = {}"
    by (simp add: keys_def)
  also have "\<dots> \<longleftrightarrow> set ps \<subseteq> keys j"
    unfolding missing_errors_keys by (auto simp: keys_def)
  finally show ?thesis .
qed

lemma missing_errors_cong:
  "\<forall>p \<in> set ps. p \<in> keys j \<longleftrightarrow> p \<in> keys j'
   \<Longrightarrow> missing_errors ps j errs = missing_errors ps j' errs"
  by (induction ps arbitrary: errs) simp_all

lemma from_json_msg_cases:
  "from_json_msg cls j =
     (if set (parameters cls) \<subseteq> keys j
      then init cls (filter (\<lambda>(k, v). k \<in> set (parameters cls)) j)
      else Inl (JsonDataException (JObj (missing_errors (parameters cls) j []))))"
  by (simp add: from_json_msg_def Let_def missing_errors_empty_iff)

lemma keys_filter_declared:
  "set ps \<subseteq> keys j \<Longrightarrow> keys (filter (\<lambda>(k, v). k \<in> set ps) j) = set ps"
  by (force simp: keys_def)

lemma keys_filter: "keys (filter (\<lambda>(k, v). k \<in> A) j) = keys j \<inter> A"
  by (force simp: keys_def)

lemma map_of_filter_declared:
  "k \<in> A \<Longrightarrow> map_of (filter (\<lambda>(k, v). k \<in> A) j) k = map_of j k"
  by (induction j) auto

lemma map_of_filter_key: "map_of (filter (\<lambda>(k, v). k = a) j) a = map_of j a"
  by (induction j) auto

lemma filter_declared_idem:
  "filter (\<lambda>(k, v). k \<in> A) (filter (\<lambda>(k, v). k \<in> A) j) = filter (\<lambda>(k, v). k \<in> A) j"
  by (induction j) auto

lemma from_json_msg_filter:
  "from_json_msg cls (filter (\<lambda>(k, v). k \<in> set (parameters cls)) j) = from_json_msg cls j"
proof -
  let ?f = "filter (\<lambda>(k, v). k \<in> set (parameters cls)) j"
  have "missing_errors (parameters cls) ?f [] = missing_errors (parameters cls) j []"
    by (rule missing_errors_cong) (simp add: keys_filter)
  then show ?thesis
    by (simp add: from_json_msg_def Let_def filter_declared_idem)
qed

lemma InputData_parameters: "parameters InputData_cls = [''audio_file'']"
  by (simp add: InputData_cls_def)

lemma InputData_init_filter:
  "InputData_init (filter (\<lambda>(k, v). k = ''audio_file'') j)
     = (case map_of j ''audio_file'' of
          None \<Rightarrow> Inl TypeError
        | Some v \<Rightarrow> Inr \<lparr>audio_file = v\<rparr>)"
  unfolding InputData_init_def map_of_filter_key
  by (auto split: option.splits)

lemma InputData_from_json_msg:
  "from_json_msg InputData_cls j =
     (case map_of j ''audio_file'' of
        None \<Rightarrow> Inl (JsonDataException (JObj [(''audio_file'', JStr ''missing parameter'')]))
      | Some v \<Rightarrow> Inr \<lparr>audio_file = v\<rparr>)"
  by (auto simp: from_json_msg_def InputData_cls_def keys_map_of InputData_init_filter
      split: option.splits)

text \<open>
  Claim C1. For every class and every JSON object, \<open>from_json_msg\<close> either finds all
  declared parameters among the keys and then hands the declared entries to the
  constructor without raising a validation failure of its own, or it raises a
  \<open>JsonDataException\<close> whose message is a dict with exactly the missing parameters as
  keys, each once, each mapped to the reason \<open>missing parameter\<close>. For the whisper
  \<open>InputData\<close> an object with all declared fields yields a payload.
\<close>

theorem from_json_msg_enumerates_missing:
  "(if set (parameters cls) \<subseteq> keys json_msg
    then from_json_msg cls json_msg =
           init cls (filter (\<lambda>(k, v). k \<in> set (parameters cls)) json_msg)
    else \<exists>errors. from_json_msg cls json_msg = Inl (JsonDataException (JObj errors))
           \<and> keys errors = {p \<in> set (parameters cls). p \<notin> keys json_msg}
           \<and> distinct (map fst errors)
           \<and> (\<forall>(k, r) \<in> set errors. r = JStr ''missing parameter''))
   \<and> (set (parameters InputData_cls) \<subseteq> keys json_msg
        \<longrightarrow> (\<exists>payload. from_json_msg InputData_cls json_msg = Inr payload))"
proof (intro conjI impI)
  show "if set (parameters cls) \<subseteq> keys json_msg
    then from_json_msg cls json_msg =
           init cls (filter (\<lambda>(k, v). k \<in> set (parameters cls)) json_msg)
    else \<exists>errors. from_json_msg cls json_msg = Inl (JsonDataException (JObj errors))
           \<and> keys errors = {p \<in> set (parameters cls). p \<notin> keys json_msg}
           \<and> distinct (map fst errors)
           \<and> (\<forall>(k, r) \<in> set errors. r = JStr ''missing parameter'')"
  proof (cases "set (parameters cls) \<subseteq> keys json_msg")
    case True
    then show ?thesis by (simp add: from_json_msg_cases)
  next
    case False
    let ?e = "missing_errors (parameters cls) json_msg []"
    have "keys ?e = {p \<in> set (parameters cls). p \<notin> keys json_msg}"
      by (simp add: missing_errors_keys keys_Nil)
    moreover have "distinct (map fst ?e)"
      by (simp add: missing_errors_distinct)
    moreover have "\<forall>(k, r) \<in> set ?e. r = JStr ''missing parameter''"
      using missing_errors_values [of _ _ "parameters cls" json_msg "[]"] by auto
    ultimately show ?thesis using False by (simp add: from_json_msg_cases)
  qed
next
  assume "set (parameters InputData_cls) \<subseteq> keys json_msg"
  then have "map_of json_msg ''audio_file'' \<noteq> None"
    by (simp add: InputData_parameters keys_map_of)
  then show "\<exists>payload. from_json_msg InputData_cls json_msg = Inr payload"
    by (auto simp: InputData_from_json_msg)
qed

theorem from_json_msg_enumerates_missing_witness:
  "from_json_msg \<lparr>parameters = [''inputs'', ''parameters''], init = Inr\<rparr> []
     = Inl (JsonDataException (JObj [(''inputs'', JStr ''missing parameter''),
                                      (''parameters'', JStr ''missing parameter'')]))
   \<and> set (parameters InputData_cls)
        \<subseteq> keys [(''audio_file'', JStr ''a.mp3''), (''language'', JStr ''en'')]
   \<and> (\<exists>payload. from_json_msg InputData_cls
         [(''audio_file'', JStr ''a.mp3''), (''language'', JStr ''en'')] = Inr payload)"
  using from_json_msg_enumerates_missing
          [of "\<lparr>parameters = [''inputs'', ''parameters''], init = Inr\<rparr>" "[]"]
    from_json_msg_enumerates_missing
          [of InputData_cls "[(''audio_file'', JStr ''a.mp3''), (''language'', JStr ''en'')]"]
  by (simp add: keys_def InputData_cls_def from_json_msg_def)

text \<open>
  Claim C9. \<open>count_workload\<close> returns 11 for every payload, whatever its
  \<open>audio_file\<close>: the same value as for the canonical test instance.
\<close>

theorem count_workload_constant:
  "count_workload payload = 11
   \<and> count_workload (payload\<lparr>audio_file := v\<rparr>) = count_workload for_test"
  by (simp add: count_workload_def)

text \<open>
  Claim C10. \<open>InputData.from_json_msg\<close> raises if and only if a declared field is
  missing, and what it raises then is a \<open>JsonDataException\<close>. Keys that are not declared
  never matter: the result is that of the object restricted to the declared keys, and
  the constructor receives exactly the declared keys with the values of the input. A
  payload that is returned carries the input's \<open>audio_file\<close> and nothing else.
\<close>

theorem from_json_msg_raises_iff_missing:
  "((\<exists>e. from_json_msg InputData_cls json_msg = Inl e)
       \<longleftrightarrow> (\<exists>p \<in> set (parameters InputData_cls). p \<notin> keys json_msg))
   \<and> (\<forall>e. from_json_msg InputData_cls json_msg = Inl e \<longrightarrow> (\<exists>m. e = JsonDataException m))
   \<and> from_json_msg cls json_msg
        = from_json_msg cls (filter (\<lambda>(k, v). k \<in> set (parameters cls)) json_msg)
   \<and> (set (parameters cls) \<subseteq> keys json_msg \<longrightarrow>
        (\<exists>kwargs. from_json_msg cls json_msg = init cls kwargs
           \<and> keys kwargs = set (parameters cls)
           \<and> (\<forall>k \<in> set (parameters cls). map_of kwargs k = map_of json_msg k)))
   \<and> (\<forall>payload. from_json_msg InputData_cls json_msg = Inr payload
        \<longrightarrow> payload = \<lparr>audio_file = the (map_of json_msg ''audio_file'')\<rparr>
            \<and> ''audio_file'' \<in> keys json_msg)"
proof (intro conjI)
  show "(\<exists>e. from_json_msg InputData_cls json_msg = Inl e)
       \<longleftrightarrow> (\<exists>p \<in> set (parameters InputData_cls). p \<notin> keys json_msg)"
    by (simp add: InputData_from_json_msg keys_map_of InputData_parameters split: option.splits)
  show "\<forall>e. from_json_msg InputData_cls json_msg = Inl e \<longrightarrow> (\<exists>m. e = JsonDataException m)"
    by (simp add: InputData_from_json_msg split: option.splits)
  show "from_json_msg cls json_msg
        = from_json_msg cls (filter (\<lambda>(k, v). k \<in> set (parameters cls)) json_msg)"
    by (simp add: from_json_msg_filter)
  show "set (parameters cls) \<subseteq> keys json_msg \<longrightarrow>
        (\<exists>kwargs. from_json_msg cls json_msg = init cls kwargs
           \<and> keys kwargs = set (parameters cls)
           \<and> (\<forall>k \<in> set (parameters cls). map_of kwargs k = map_of json_msg k))"
  proof
    assume a: "set (parameters cls) \<subseteq> keys json_msg"
    let ?kw = "filter (\<lambda>(k, v). k \<in> set (parameters cls)) json_msg"
    have "from_json_msg cls json_msg = init cls ?kw"
      using a by (simp add: from_json_msg_cases)
    moreover have "keys ?kw = set (parameters cls)"
      using a by (rule keys_filter_declared)
    moreover have "\<forall>k \<in> set (parameters cls). map_of ?kw k = map_of json_msg k"
      by (simp add: map_of_filter_declared)
    ultimately show "\<exists>kwargs. from_json_msg cls json_msg = init cls kwargs
           \<and> keys kwargs = set (parameters cls)
           \<and> (\<forall>k \<in> set (parameters cls). map_of kwargs k = map_of json_msg k)"
      by blast
  qed
  show "\<forall>payload. from_json_msg InputData_cls json_msg = Inr payload
        \<longrightarrow> payload = \<lparr>audio_file = the (map_of json_msg ''audio_file'')\<rparr>
            \<and> ''audio_file'' \<in> keys json_msg"
    by (auto simp: InputData_from_json_msg keys_map_of split: option.splits)
qed

theorem from_json_msg_raises_iff_missing_witness:
  "from_json_msg InputData_cls [(''language'', JStr ''en''), (''audio_file'', JStr ''a.mp3'')]
     = Inr \<lparr>audio_file = JStr ''a.mp3''\<rparr>
   \<and> from_json_msg InputData_cls [(''language'', JStr ''en'')]
     = Inl (JsonDataException (JObj [(''audio_file'', JStr ''missing parameter'')]))
   \<and> (\<exists>p \<in> set (parameters InputData_cls). p \<notin> keys [(''language'', JStr ''en'')])
   \<and> set (parameters InputData_cls)
        \<subseteq> keys [(''language'', JStr ''en''), (''audio_file'', JStr ''a.mp3'')]"
  using from_json_msg_raises_iff_missing
          [of "[(''language'', JStr ''en''), (''audio_file'', JStr ''a.mp3'')]" InputData_cls]
    from_json_msg_raises_iff_missing [of "[(''language'', JStr ''en'')]" InputData_cls]
  by (simp add: keys_def InputData_cls_def from_json_msg_def InputData_init_def)

section \<open>Handlers and the streaming backend\<close>

lemma concat_readlines: "concat (readlines True acc s) = rev acc @ s"
  by (induction s arbitrary: acc) simp_all

lemma write_chunks_None:
  "write_chunks None items = (concat (map (\<lambda>c. [Recv c, Write c]) items), None, False)"
  by (induction items) simp_all

lemma received_written:
  "received (concat (map (\<lambda>c. [Recv c, Write c]) items) @ tr) = items @ received tr"
  by (induction items) simp_all

lemma WriteEof_notin_written:
  "WriteEof \<notin> set (concat (map (\<lambda>c. [Recv c, Write c]) items))"
  by (induction items) simp_all

lemma max_pending_written:
  "max_pending 0 (concat (map (\<lambda>c. [Recv c, Write c]) items) @ tr)
     = max (if items = [] then 0 else 1) (max_pending 0 tr)"
  by (induction items) (simp_all add: max.assoc)

lemma yield_lines_None:
  "yield_lines None lines
     = (concat (map (\<lambda>l. [Recv l, Write l, Write [CHR 0x0A]]) lines), False)"
  by (induction lines) simp_all

lemma received_yielded:
  "received (concat (map (\<lambda>l. [Recv l, Write l, Write [CHR 0x0A]]) lines))
     = concat (map (\<lambda>l. [l, [CHR 0x0A]]) lines)"
  by (induction lines) simp_all

lemma max_pending_yielded:
  "max_pending 0 (concat (map (\<lambda>l. [Recv l, Write l, Write [CHR 0x0A]]) lines)) \<le> 1"
proof -
  have "max_pending 0 (concat (map (\<lambda>l. [Recv l, Write l, Write [CHR 0x0A]]) lines))
          = (if lines = [] then 0 else 1)"
    by (induction lines) simp_all
  then show ?thesis by simp
qed

lemma write_chunks_prefix: "prefix (received (fst (write_chunks left items))) items"
proof (induction items arbitrary: left)
  case Nil
  then show ?case by simp
next
  case (Cons c items)
  show ?case
  proof (cases "left = Some 0")
    case True
    then show ?thesis by simp
  next
    case False
    then show ?thesis
      using Cons [of "spend left"] by (simp add: case_prod_unfold Let_def)
  qed
qed

lemma write_chunks_pending: "max_pending 0 (fst (write_chunks left items)) \<le> 1"
proof (induction items arbitrary: left)
  case Nil
  then show ?case by simp
next
  case (Cons c items)
  show ?case
  proof (cases "left = Some 0")
    case True
    then show ?thesis by simp
  next
    case False
    then show ?thesis
      using Cons [of "spend left"] by (simp add: case_prod_unfold Let_def)
  qed
qed

lemma write_chunks_complete:
  "\<not> snd (snd (write_chunks left items))
   \<Longrightarrow> fst (write_chunks left items) = concat (map (\<lambda>c. [Recv c, Write c]) items)"
proof (induction items arbitrary: left)
  case Nil
  then show ?case by simp
next
  case (Cons c items)
  show ?case
  proof (cases "left = Some 0")
    case True
    with Cons.prems show ?thesis by simp
  next
    case False
    with Cons.prems have "\<not> snd (snd (write_chunks (spend left) items))"
      by (simp add: case_prod_unfold Let_def)
    from Cons.IH [OF this] False show ?thesis
      by (simp add: case_prod_unfold Let_def)
  qed
qed

lemma yield_lines_prefix:
  "prefix (received (fst (yield_lines closed_after lines)))
     (concat (map (\<lambda>l. [l, [CHR 0x0A]]) lines))"
proof (induction lines arbitrary: closed_after)
  case Nil
  then show ?case by simp
next
  case (Cons l lines)
  show ?case
    using Cons [of "map_option (\<lambda>n. n - 2) closed_after"]
    by (simp add: case_prod_unfold Let_def)
qed

lemma yield_lines_pending: "max_pending 0 (fst (yield_lines closed_after lines)) \<le> 1"
proof (induction lines arbitrary: closed_after)
  case Nil
  then show ?case by simp
next
  case (Cons l lines)
  show ?case
    using Cons [of "map_option (\<lambda>n. n - 2) closed_after"]
    by (simp add: case_prod_unfold Let_def)
qed

lemma stream_steps:
  "status response = 200 \<Longrightarrow>
   prefix (received (snd (GenerateStreamHandler_generate_response request response)))
     (fst (content response))
   \<and> max_pending 0 (snd (GenerateStreamHandler_generate_response request response)) \<le> 1"
proof -
  assume ok: "status response = 200"
  let ?w = "write_chunks (spend (accepts request)) (fst (content response))"
  have p: "prefix (received (fst ?w)) (fst (content response))"
    by (rule write_chunks_prefix)
  have m: "max_pending 0 (fst ?w) \<le> 1"
    by (rule write_chunks_pending)
  have c: "\<not> snd (snd ?w) \<Longrightarrow> max_pending 0 (fst ?w @ [WriteEof]) \<le> 1"
    by (simp add: write_chunks_complete max_pending_written)
  have r: "\<not> snd (snd ?w) \<Longrightarrow> received (fst ?w @ [WriteEof]) = fst (content response)"
    using received_written [of "fst (content response)" "[WriteEof]"]
    by (simp add: write_chunks_complete)
  show ?thesis
    using ok p m c r
    by (auto simp: GenerateStreamHandler_generate_response_def case_prod_unfold Let_def
        split: option.splits)
qed

lemma hf_tgi_wrapper_steps:
  "prefix (yielded (hf_tgi_wrapper inputs parameters' (PostReturns 200 lines err) closed_after))
     (concat (map (\<lambda>l. [l, [CHR 0x0A]]) lines))
   \<and> max_pending 0
        (steps (hf_tgi_wrapper inputs parameters' (PostReturns 200 lines err) closed_after)) \<le> 1"
  using yield_lines_prefix [of closed_after lines] yield_lines_pending [of closed_after lines]
  by (auto simp: hf_tgi_wrapper_def yielded_def case_prod_unfold Let_def split: option.splits)

lemma stream_clean:
  assumes "status response = 200" and "body_error response = None"
    and "accepts request = None"
  shows "GenerateStreamHandler_generate_response request response
     = (Inr (StreamResponse ''text/event-stream''),
        Prepare ''text/event-stream''
          # concat (map (\<lambda>c. [Recv c, Write c])
              (readlines True [] (concat (body_chunks response))))
          @ [WriteEof])"
  using assms
  by (simp add: GenerateStreamHandler_generate_response_def content_def write_chunks_None)

lemma hf_tgi_wrapper_clean:
  "hf_tgi_wrapper inputs parameters' (PostReturns 200 lines None) None
     = \<lparr>steps = concat (map (\<lambda>l. [Recv l, Write l, Write [CHR 0x0A]]) lines),
        events = [start_req inputs parameters',
                  post [(''inputs'', inputs), (''parameters'', parameters')],
                  finish_req inputs parameters'],
        raised = None\<rparr>"
  by (simp add: hf_tgi_wrapper_def yield_lines_None)

lemma hf_tgi_wrapper_broken:
  "hf_tgi_wrapper inputs parameters' (PostReturns 200 lines (Some RequestException)) None
     = \<lparr>steps = concat (map (\<lambda>l. [Recv l, Write l, Write [CHR 0x0A]]) lines),
        events = [start_req inputs parameters',
                  post [(''inputs'', inputs), (''parameters'', parameters')]],
        raised = None\<rparr>"
  by (simp add: hf_tgi_wrapper_def yield_lines_None)

text \<open>
  Claim C4, as amended. For every 200 upstream response, what
  \<open>GenerateStreamHandler.generate_response\<close> has written to the client is at every
  point a prefix of the items that iterating \<open>response.content\<close> yields, the lines of
  the body, and never more than one item is read and not yet written; the same holds of
  the generator \<open>hf_tgi_wrapper\<close> of \<open>tgi_backend.py\<close>, whose items are the lines of
  \<open>iter_lines()\<close>, each followed by a chunk of its own holding a newline. When the
  body is read to its end without an exception
  and the client takes every write, \<open>GenerateStreamHandler.generate_response\<close> writes
  the items that iterating \<open>response.content\<close> yields, the lines of the body: the
  bytes the client receives are exactly the upstream bytes in order, each line is written
  before the next is read (never more than one is pending), and \<open>write_eof\<close> follows
  the last one, once. The generator \<open>hf_tgi_wrapper\<close> of \<open>tgi_backend.py\<close>, run to
  its end, yields every line of \<open>iter_lines()\<close> in order, each before the next is read
  and each followed by a chunk of its own holding a newline; it then returns, which ends
  the response, also when \<open>iter_lines()\<close> ended in a \<open>RequestException\<close>.
\<close>

theorem stream_forwarding:
  "(status response' = 200 \<longrightarrow>
      prefix (received (snd (GenerateStreamHandler_generate_response request' response')))
        (fst (content response'))
      \<and> max_pending 0 (snd (GenerateStreamHandler_generate_response request' response')) \<le> 1)
   \<and> prefix
        (yielded (hf_tgi_wrapper inputs parameters' (PostReturns 200 lines err) closed_after))
        (concat (map (\<lambda>l. [l, [CHR 0x0A]]) lines))
   \<and> max_pending 0
        (steps (hf_tgi_wrapper inputs parameters' (PostReturns 200 lines err) closed_after)) \<le> 1
   \<and> (status response = 200 \<and> body_error response = None \<and> accepts request = None \<longrightarrow>
      (\<exists>written. GenerateStreamHandler_generate_response request response
           = (Inr (StreamResponse ''text/event-stream''),
              Prepare ''text/event-stream'' # written @ [WriteEof])
         \<and> received written = readlines True [] (concat (body_chunks response))
         \<and> concat (received written) = concat (body_chunks response)
         \<and> WriteEof \<notin> set written
         \<and> max_pending 0 (Prepare ''text/event-stream'' # written @ [WriteEof]) \<le> 1))
   \<and> yielded (hf_tgi_wrapper inputs parameters' (PostReturns 200 lines None) None)
        = concat (map (\<lambda>l. [l, [CHR 0x0A]]) lines)
   \<and> max_pending 0 (steps (hf_tgi_wrapper inputs parameters' (PostReturns 200 lines None) None))
        \<le> 1
   \<and> raised (hf_tgi_wrapper inputs parameters' (PostReturns 200 lines None) None) = None
   \<and> yielded (hf_tgi_wrapper inputs parameters'
                 (PostReturns 200 lines (Some RequestException)) None)
        = concat (map (\<lambda>l. [l, [CHR 0x0A]]) lines)
   \<and> raised (hf_tgi_wrapper inputs parameters'
                (PostReturns 200 lines (Some RequestException)) None) = None"
proof (intro conjI impI)
  assume "status response' = 200"
  then show "prefix (received (snd (GenerateStreamHandler_generate_response request' response')))
        (fst (content response'))"
    by (rule conjunct1 [OF stream_steps])
next
  assume "status response' = 200"
  then show "max_pending 0 (snd (GenerateStreamHandler_generate_response request' response')) \<le> 1"
    by (rule conjunct2 [OF stream_steps])
next
  show "prefix
        (yielded (hf_tgi_wrapper inputs parameters' (PostReturns 200 lines err) closed_after))
        (concat (map (\<lambda>l. [l, [CHR 0x0A]]) lines))"
    by (rule conjunct1 [OF hf_tgi_wrapper_steps])
next
  show "max_pending 0
        (steps (hf_tgi_wrapper inputs parameters' (PostReturns 200 lines err) closed_after)) \<le> 1"
    by (rule conjunct2 [OF hf_tgi_wrapper_steps])
next
  assume a: "status response = 200 \<and> body_error response = None \<and> accepts request = None"
  let ?items = "readlines True [] (concat (body_chunks response))"
  let ?w = "concat (map (\<lambda>c. [Recv c, Write c]) ?items)"
  have run: "GenerateStreamHandler_generate_response request response
     = (Inr (StreamResponse ''text/event-stream''),
        Prepare ''text/event-stream'' # ?w @ [WriteEof])"
    using a by (simp add: stream_clean)
  have rec: "received ?w = ?items"
    using received_written [of ?items "[]"] by simp
  have bytes: "concat (received ?w) = concat (body_chunks response)"
    unfolding rec by (simp add: concat_readlines)
  have pend: "max_pending 0 (Prepare ''text/event-stream'' # ?w @ [WriteEof]) \<le> 1"
    by (simp add: max_pending_written)
  from run rec bytes pend WriteEof_notin_written [of ?items]
  show "\<exists>written. GenerateStreamHandler_generate_response request response
           = (Inr (StreamResponse ''text/event-stream''),
              Prepare ''text/event-stream'' # written @ [WriteEof])
         \<and> received written = readlines True [] (concat (body_chunks response))
         \<and> concat (received written) = concat (body_chunks response)
         \<and> WriteEof \<notin> set written
         \<and> max_pending 0 (Prepare ''text/event-stream'' # written @ [WriteEof]) \<le> 1"
    by blast
next
  show "yielded (hf_tgi_wrapper inputs parameters' (PostReturns 200 lines None) None)
        = concat (map (\<lambda>l. [l, [CHR 0x0A]]) lines)"
    by (simp add: hf_tgi_wrapper_clean yielded_def received_yielded)
next
  show "max_pending 0 (steps (hf_tgi_wrapper inputs parameters' (PostReturns 200 lines None) None))
        \<le> 1"
    using max_pending_yielded [of lines] by (simp add: hf_tgi_wrapper_clean)
next
  show "raised (hf_tgi_wrapper inputs parameters' (PostReturns 200 lines None) None) = None"
    by (simp add: hf_tgi_wrapper_clean)
next
  show "yielded (hf_tgi_wrapper inputs parameters'
                 (PostReturns 200 lines (Some RequestException)) None)
        = concat (map (\<lambda>l. [l, [CHR 0x0A]]) lines)"
    by (simp add: hf_tgi_wrapper_broken yielded_def received_yielded)
next
  show "raised (hf_tgi_wrapper inputs parameters'
                (PostReturns 200 lines (Some RequestException)) None) = None"
    by (simp add: hf_tgi_wrapper_broken)
qed

theorem stream_forwarding_witness:
  "status \<lparr>status = 200, json_body = Inl TypeError,
           body_chunks = [''data:a'', [CHR 0x0A], ''data:b''], body_error = None\<rparr> = 200
   \<and> body_error \<lparr>status = 200, json_body = Inl TypeError,
           body_chunks = [''data:a'', [CHR 0x0A], ''data:b''], body_error = None\<rparr> = None
   \<and> accepts \<lparr>accepts = None\<rparr> = None
   \<and> GenerateStreamHandler_generate_response \<lparr>accepts = None\<rparr>
        \<lparr>status = 200, json_body = Inl TypeError,
         body_chunks = [''data:a'', [CHR 0x0A], ''data:b''], body_error = None\<rparr>
      = (Inr (StreamResponse ''text/event-stream''),
         [Prepare ''text/event-stream'',
          Recv (''data:a'' @ [CHR 0x0A]), Write (''data:a'' @ [CHR 0x0A]),
          Recv ''data:b'', Write ''data:b'', WriteEof])"
  using stream_forwarding
          [where response = "\<lparr>status = 200, json_body = Inl TypeError,
                body_chunks = [''data:a'', [CHR 0x0A], ''data:b''], body_error = None\<rparr>"
             and request = "\<lparr>accepts = None\<rparr>"
             and response' = "\<lparr>status = 200, json_body = Inl TypeError,
                body_chunks = [''data:a'', [CHR 0x0A], ''data:b''], body_error = None\<rparr>"
             and request' = "\<lparr>accepts = Some 2\<rparr>"
             and inputs = JNull and parameters' = JNull and lines = "[]" and err = None
             and closed_after = None]
  by (simp add: GenerateStreamHandler_generate_response_def content_def)

text \<open>
  The claim as stated fails in four places. In \<open>hf_tgi_wrapper\<close> the one upstream
  line \<open>data:a\<close> reaches the client as two chunks. In
  \<open>GenerateStreamHandler.generate_response\<close> the two upstream chunks \<open>a\<close> and
  \<open>b\<close> with its newline reach the client as the one chunk \<open>ab\<close> with the newline; and
  when the stream breaks after a line, or the client connection is lost at the first
  \<open>write\<close>, the exception leaves the method and \<open>write_eof\<close> is not called.
\<close>

theorem stream_chunks_counterexample:
  "yielded (hf_tgi_wrapper (JStr ''hi'') (JObj []) (PostReturns 200 [''data:a''] None) None)
     = [''data:a'', [CHR 0x0A]]
   \<and> yielded (hf_tgi_wrapper (JStr ''hi'') (JObj []) (PostReturns 200 [''data:a''] None) None)
     \<noteq> [''data:a'']
   \<and> GenerateStreamHandler_generate_response \<lparr>accepts = None\<rparr>
        \<lparr>status = 200, json_body = Inl TypeError,
         body_chunks = [''a'', [CHR ''b'', CHR 0x0A]], body_error = None\<rparr>
      = (Inr (StreamResponse ''text/event-stream''),
         [Prepare ''text/event-stream'',
          Recv [CHR ''a'', CHR ''b'', CHR 0x0A], Write [CHR ''a'', CHR ''b'', CHR 0x0A],
          WriteEof])
   \<and> [[CHR ''a'', CHR ''b'', CHR 0x0A]] \<noteq> [''a'', [CHR ''b'', CHR 0x0A]]
   \<and> GenerateStreamHandler_generate_response \<lparr>accepts = None\<rparr>
        \<lparr>status = 200, json_body = Inl TypeError,
         body_chunks = [[CHR ''a'', CHR 0x0A]], body_error = Some ClientPayloadError\<rparr>
      = (Inl ClientPayloadError,
         [Prepare ''text/event-stream'',
          Recv [CHR ''a'', CHR 0x0A], Write [CHR ''a'', CHR 0x0A]])
   \<and> GenerateStreamHandler_generate_response \<lparr>accepts = Some 1\<rparr>
        \<lparr>status = 200, json_body = Inl TypeError,
         body_chunks = [[CHR ''a'', CHR 0x0A]], body_error = None\<rparr>
      = (Inl ConnectionResetError,
         [Prepare ''text/event-stream'', Recv [CHR ''a'', CHR 0x0A]])"
  by (simp add: hf_tgi_wrapper_def yielded_def
      GenerateStreamHandler_generate_response_def content_def)

lemma handle_request_validated:
  "get_data_from_request data = Inr (auth_data, payload) \<Longrightarrow>
   tgi_GenerateHandler_handle_request self get_data_from_request bhr (Inr data) s
     = except_Exception_500 (bhr self auth_data payload s)
   \<and> tgi_GenerateStreamHandler_handle_request self get_data_from_request bhr (Inr data) s
     = except_Exception_500 (bhr self auth_data payload s)
   \<and> hello_world_GenerateHandler_handle_request self get_data_from_request bhr (Inr data) s
     = except_Exception_500 (bhr self auth_data payload s)
   \<and> hello_world_GenerateStreamHandler_handle_request self get_data_from_request bhr (Inr data) s
     = except_Exception_500 (bhr self auth_data payload s)"
  by (simp add: tgi_GenerateHandler_handle_request_def
      tgi_GenerateStreamHandler_handle_request_def
      hello_world_GenerateHandler_handle_request_def
      hello_world_GenerateStreamHandler_handle_request_def)

lemma except_Exception_500_raise:
  "is_Exception e \<Longrightarrow> except_Exception_500 (Inl e, s') = (Inr (Response 500 []), s')"
  by (simp add: except_Exception_500_def)

lemma generate_response_non_200:
  "status response \<noteq> 200 \<Longrightarrow>
   GenerateHandler_generate_response request response
     = (Inr (Response (status response) []), [])
   \<and> GenerateStreamHandler_generate_response request response
     = (Inr (Response (status response) []), [])
   \<and> AsrHandler_generate_client_response request response
     = (Inr (Response (status response) []), [])"
  by (simp add: GenerateHandler_generate_response_def
      GenerateStreamHandler_generate_response_def AsrHandler_generate_client_response_def)

text \<open>
  Claim C5. When \<open>get_data_from_request\<close> raises a \<open>JsonDataException\<close>, the
  \<open>handle_request\<close> of the tgi \<open>GenerateStreamHandler\<close> and of the hello\_world
  \<open>GenerateHandler\<close> let it leave the handler; their siblings answer 422 with the
  message. In all four the backend is not called and its state is as before.
\<close>

theorem validation_failure_uncaught:
  "tgi_GenerateStreamHandler_handle_request self (\<lambda>data. Inl (JsonDataException message))
       backend_handle_request (Inr data) s
     = (Inl (JsonDataException message), s)
   \<and> hello_world_GenerateHandler_handle_request self (\<lambda>data. Inl (JsonDataException message))
       backend_handle_request (Inr data) s
     = (Inl (JsonDataException message), s)
   \<and> tgi_GenerateHandler_handle_request self (\<lambda>data. Inl (JsonDataException message))
       backend_handle_request (Inr data) s
     = (Inr (JsonResponse 422 message), s)
   \<and> hello_world_GenerateStreamHandler_handle_request self
       (\<lambda>data. Inl (JsonDataException message)) backend_handle_request (Inr data) s
     = (Inr (JsonResponse 422 message), s)"
  by (simp add: tgi_GenerateHandler_handle_request_def
      tgi_GenerateStreamHandler_handle_request_def
      hello_world_GenerateHandler_handle_request_def
      hello_world_GenerateStreamHandler_handle_request_def)

text \<open>
  Claim C6. When \<open>requests.post\<close> raises a \<open>RequestException\<close>, \<open>generate_stream\<close>
  of \<open>tgi_backend.py\<close> answers with status 200 and an empty body; \<open>health_handler\<close>
  of the same class answers 500 for the same exception.
\<close>

theorem generate_stream_transport_failure:
  "generate_stream [(''inputs'', inputs), (''parameters'', parameters')]
       (PostRaises RequestException) closed_after
     = Inr \<lparr>status_code = 200,
            body = \<lparr>steps = [],
                    events = [start_req inputs parameters',
                              post [(''inputs'', inputs), (''parameters'', parameters')]],
                    raised = None\<rparr>\<rparr>
   \<and> health_handler (Inl RequestException) = Inr (500, None)"
  by (simp add: generate_stream_def flask_Response_def hf_tgi_wrapper_def
      health_handler_def passthrough_handler_def)

text \<open>
  Claim C7. For an upstream status 503, \<open>generate_stream\<close> of \<open>tgi_backend.py\<close>
  answers with status 200 and an empty body; \<open>info_handler\<close> of the same class passes
  the 503 on.
\<close>

theorem generate_stream_non_200:
  "generate_stream [(''inputs'', inputs), (''parameters'', parameters')]
       (PostReturns 503 lines err) closed_after
     = Inr \<lparr>status_code = 200,
            body = \<lparr>steps = [],
                    events = [start_req inputs parameters',
                              post [(''inputs'', inputs), (''parameters'', parameters')],
                              finish_req inputs parameters'],
                    raised = None\<rparr>\<rparr>
   \<and> info_handler (Inr (503, content')) = Inr (503, None)"
  by (simp add: generate_stream_def flask_Response_def hf_tgi_wrapper_def
      info_handler_def passthrough_handler_def)

text \<open>
  Claim C8. In \<open>hf_tgi_wrapper\<close> the request is started before the upstream call.
  When the call raises a \<open>RequestException\<close> the request is started and never
  finished, and so it is when \<open>iter_lines()\<close> raises one after the call returned 200, or
  when the consumer closes the generator at a \<open>yield\<close>. It is finished once when the
  call returns, whatever the status, and the lines are read and taken to the end.
\<close>

theorem hf_tgi_wrapper_unfinished_on_failure:
  "events (hf_tgi_wrapper inputs parameters' (PostRaises RequestException) closed_after)
     = [start_req inputs parameters',
        post [(''inputs'', inputs), (''parameters'', parameters')]]
   \<and> finish_req inputs parameters'
        \<notin> set (events (hf_tgi_wrapper inputs parameters' (PostRaises RequestException)
                          closed_after))
   \<and> events (hf_tgi_wrapper inputs parameters'
                (PostReturns 200 lines (Some RequestException)) None)
     = [start_req inputs parameters',
        post [(''inputs'', inputs), (''parameters'', parameters')]]
   \<and> events (hf_tgi_wrapper inputs parameters' (PostReturns 200 (l # lines) err) (Some 0))
     = [start_req inputs parameters',
        post [(''inputs'', inputs), (''parameters'', parameters')]]
   \<and> events (hf_tgi_wrapper inputs parameters' (PostReturns code lines None) None)
     = [start_req inputs parameters',
        post [(''inputs'', inputs), (''parameters'', parameters')],
        finish_req inputs parameters']
   \<and> events (hf_tgi_wrapper inputs parameters' (PostReturns 503 lines err) closed_after)
     = [start_req inputs parameters',
        post [(''inputs'', inputs), (''parameters'', parameters')],
        finish_req inputs parameters']"
  unfolding hf_tgi_wrapper_broken
  by (simp add: hf_tgi_wrapper_def yield_lines_None Let_def)

section \<open>The readiness monitor: \<open>Crashed\<close> is absorbing\<close>

lemma contains_iff: "contains msg log_line \<longleftrightarrow> (\<exists>ps ss. log_line = ps @ msg @ ss)"
proof (induction log_line)
  case Nil
  then show ?case by auto
next
  case (Cons c cs)
  show ?case
  proof
    assume "contains msg (c # cs)"
    then consider "prefix msg (c # cs)" | "contains msg cs" by auto
    then show "\<exists>ps ss. c # cs = ps @ msg @ ss"
    proof cases
      case 1
      then obtain ss where "c # cs = msg @ ss" by (auto simp: prefix_def)
      then have "c # cs = [] @ msg @ ss" by simp
      then show ?thesis by blast
    next
      case 2
      with Cons obtain ps ss where "cs = ps @ msg @ ss" by blast
      then have "c # cs = (c # ps) @ msg @ ss" by simp
      then show ?thesis by blast
    qed
  next
    assume "\<exists>ps ss. c # cs = ps @ msg @ ss"
    then obtain ps ss where eq: "c # cs = ps @ msg @ ss" by blast
    show "contains msg (c # cs)"
    proof (cases ps)
      case Nil
      with eq have "prefix msg (c # cs)" by (simp add: prefix_def)
      then show ?thesis by simp
    next
      case (Cons p ps')
      with eq have "cs = ps' @ msg @ ss" by simp
      with Cons.IH show ?thesis by auto
    qed
  qed
qed

lemma apply_action_Crashed: "apply_action a Crashed = Crashed"
  by (cases a) simp_all

lemma handle_log_line_Crashed: "handle_log_line rules log_line Crashed = Crashed"
  by (induction rules) (auto simp: apply_action_Crashed)

lemma handle_log_line_ModelError:
  "(ModelError, marker) \<in> set rules \<Longrightarrow> contains marker log_line
   \<Longrightarrow> handle_log_line rules log_line h = Crashed"
proof (induction rules arbitrary: h)
  case Nil
  then show ?case by simp
next
  case (Cons rule rules)
  obtain a msg where rule: "rule = (a, msg)" by (cases rule)
  show ?case
  proof (cases "rule = (ModelError, marker)")
    case True
    with Cons.prems rule show ?thesis by (simp add: handle_log_line_Crashed)
  next
    case False
    with Cons.prems have "(ModelError, marker) \<in> set rules" by simp
    with Cons.IH Cons.prems(2) rule show ?thesis by simp
  qed
qed

lemma Backend_handle_request_not_Ready:
  "health s \<noteq> Ready
   \<Longrightarrow> Backend_handle_request h request upstream s = (Inr (Response 503 []), s)"
  by (simp add: Backend_handle_request_def)

lemma run_Crashed:
  "health s = Crashed
   \<Longrightarrow> run rules evs s = (replicate (requests_in evs) (Inr (Response 503 [])), s)"
proof (induction evs arbitrary: s)
  case Nil
  then show ?case by simp
next
  case (Cons ev evs)
  show ?case
  proof (cases ev)
    case (LogLine l)
    have "s\<lparr>health := handle_log_line rules l (health s)\<rparr> = s"
      using Cons.prems by (simp add: handle_log_line_Crashed)
    with Cons LogLine show ?thesis by simp
  next
    case (Request h req up)
    have "Backend_handle_request h req up s = (Inr (Response 503 []), s)"
      using Cons.prems by (simp add: Backend_handle_request_not_Ready)
    with Cons Request show ?thesis by simp
  qed
qed

text \<open>
  Claim C3. Once a log line contains a marker that the configured \<open>log_actions\<close> give
  to \<open>ModelError\<close>, the Health State is \<open>Crashed\<close>, whatever it was before; it stays
  \<open>Crashed\<close> through every later log line, every later request is answered with the
  fail-fast response, and the number of upstream calls never grows again.
\<close>

theorem crashed_is_absorbing:
  assumes "(ModelError, marker) \<in> set log_actions" and "contains marker log_line"
  shows "handle_log_line log_actions log_line h = Crashed
    \<and> run log_actions (LogLine log_line # evs) s
        = (replicate (requests_in evs) (Inr (Response 503 [])), s\<lparr>health := Crashed\<rparr>)
    \<and> health (snd (run log_actions (LogLine log_line # evs) s)) = Crashed
    \<and> upstream_calls (snd (run log_actions (LogLine log_line # evs) s)) = upstream_calls s"
proof -
  have c: "handle_log_line log_actions log_line h = Crashed" for h
    using assms by (rule handle_log_line_ModelError)
  have "run log_actions (LogLine log_line # evs) s
        = (replicate (requests_in evs) (Inr (Response 503 [])), s\<lparr>health := Crashed\<rparr>)"
    by (simp add: c run_Crashed)
  with c show ?thesis by simp
qed

theorem crashed_is_absorbing_witness:
  "(ModelError, ''CUDA error'') \<in> set whisper_log_actions
   \<and> contains ''CUDA error'' ''E: CUDA error 700''
   \<and> run whisper_log_actions
        [LogLine ''E: CUDA error 700'',
         LogLine ''Application startup complete.'',
         Request AsrHandler \<lparr>accepts = None\<rparr>
           (Inr \<lparr>status = 200, json_body = Inr JNull, body_chunks = [],
                 body_error = None\<rparr>)]
        \<lparr>health = Ready, upstream_calls = 3\<rparr>
      = ([Inr (Response 503 [])], \<lparr>health = Crashed, upstream_calls = 3\<rparr>)"
proof -
  have m: "(ModelError, ''CUDA error'') \<in> set whisper_log_actions"
    by (simp add: whisper_log_actions_def)
  have c: "contains ''CUDA error'' ''E: CUDA error 700''"
    by simp
  show ?thesis
    using m c crashed_is_absorbing [OF m c, of Ready
        "[LogLine ''Application startup complete.'',
          Request AsrHandler \<lparr>accepts = None\<rparr>
            (Inr \<lparr>status = 200, json_body = Inr JNull, body_chunks = [],
                  body_error = None\<rparr>)]"
        "\<lparr>health = Ready, upstream_calls = 3\<rparr>"]
    by (simp del: run.simps)
qed

section \<open>The Exclusive gate\<close>

lemma submitted_append: "submitted (evs @ evs') = submitted evs @ submitted evs'"
  by (induction evs rule: submitted.induct) simp_all

lemma started_append: "started (tr @ tr') = started tr @ started tr'"
  by (induction tr rule: started.induct) simp_all

lemma finished_append: "finished (tr @ tr') = finished tr @ finished tr'"
  by (induction tr rule: finished.induct) simp_all

lemma current_append: "current (tr @ tr') cur = current tr' (current tr cur)"
  by (induction tr cur rule: current.induct) simp_all

lemma serial_append:
  "serial (tr @ tr') cur \<longleftrightarrow> serial tr cur \<and> serial tr' (current tr cur)"
  by (induction tr cur rule: serial.induct) auto

lemma gate_run_snoc: "gate_run mode (evs @ [e]) = gate_step mode (gate_run mode evs) e"
  by (simp add: gate_run_def)

lemma gate_inv_init: "gate_inv [] gate_init"
  by (simp add: gate_inv_def gate_init_def)

lemma gate_invD:
  assumes "gate_inv evs g"
  shows "serial (trace g) None"
    and "current (trace g) None = None \<Longrightarrow> in_flight g = []"
    and "current (trace g) None = Some r \<Longrightarrow> in_flight g = [r]"
    and "in_flight g = [] \<Longrightarrow> waiting g = [] \<and> current (trace g) None = None"
    and "r \<in> set (in_flight g) \<Longrightarrow> in_flight g = [r] \<and> current (trace g) None = Some r"
    and "started (trace g) @ waiting g = submitted evs"
    and "finished (trace g) @ in_flight g = started (trace g)"
  using assms by (auto simp: gate_inv_def split: option.splits)

lemma gate_inv_Submit:
  assumes "gate_inv evs g"
  shows "gate_inv (evs @ [Submit r]) (gate_step Exclusive g (Submit r))"
proof (cases "in_flight g = []")
  case True
  with gate_invD(4) [OF assms] have w: "waiting g = []" and c: "current (trace g) None = None"
    by simp_all
  have st: "started (trace g) = submitted evs"
    using gate_invD(6) [OF assms] w by simp
  have fi: "finished (trace g) = started (trace g)"
    using gate_invD(7) [OF assms] True by simp
  show ?thesis
    unfolding gate_inv_def
    using True w c st fi gate_invD(1) [OF assms]
    by (simp add: serial_append current_append started_append finished_append
        submitted_append)
next
  case False
  then obtain x where c: "current (trace g) None = Some x" and fl: "in_flight g = [x]"
    using assms by (auto simp: gate_inv_def split: option.splits)
  have st: "started (trace g) @ waiting g = submitted evs"
    by (rule gate_invD(6) [OF assms])
  have fi: "finished (trace g) @ [x] = started (trace g)"
    using gate_invD(7) [OF assms] fl by simp
  show ?thesis
    unfolding gate_inv_def
    using c fl fi gate_invD(1) [OF assms] st [symmetric]
    by (simp add: submitted_append)
qed

lemma gate_inv_Drained:
  assumes "gate_inv evs g"
  shows "gate_inv (evs @ [Drained r ok]) (gate_step Exclusive g (Drained r ok))"
proof (cases "r \<in> set (in_flight g)")
  case False
  have e1: "gate_step Exclusive g (Drained r ok) = g"
    using False by simp
  have e2: "submitted (evs @ [Drained r ok]) = submitted evs"
    by (simp add: submitted_append)
  show ?thesis
    unfolding gate_inv_def e1 e2 using assms [unfolded gate_inv_def] .
next
  case True
  with gate_invD(5) [OF assms] have cur: "current (trace g) None = Some r"
    and fl: "in_flight g = [r]"
    by simp_all
  have st: "started (trace g) @ waiting g = submitted evs"
    by (rule gate_invD(6) [OF assms])
  have fi: "finished (trace g) @ [r] = started (trace g)"
    using gate_invD(7) [OF assms] fl by simp
  show ?thesis
  proof (cases "waiting g")
    case Nil
    show ?thesis
      unfolding gate_inv_def
      using Nil cur fl fi st gate_invD(1) [OF assms]
      by (simp add: serial_append current_append started_append finished_append
          submitted_append)
  next
    case (Cons q qs)
    have st': "started (trace g) @ q # qs = submitted evs"
      using st Cons by simp
    show ?thesis
      unfolding gate_inv_def
      using Cons cur fl fi st' [symmetric] gate_invD(1) [OF assms]
      by (simp add: serial_append current_append started_append finished_append
          submitted_append)
  qed
qed

lemma gate_inv_run: "gate_inv evs (gate_run Exclusive evs)"
proof (induction evs rule: rev_induct)
  case Nil
  then show ?case by (simp add: gate_run_def gate_inv_init)
next
  case (snoc e evs)
  show ?case
  proof (cases e)
    case (Submit r)
    show ?thesis
      unfolding Submit gate_run_snoc by (rule gate_inv_Submit [OF snoc])
  next
    case (Drained r ok)
    show ?thesis
      unfolding Drained gate_run_snoc by (rule gate_inv_Drained [OF snoc])
  qed
qed

lemma serial_finished_started:
  "serial tr cur \<Longrightarrow>
   finished tr @ (case current tr cur of None \<Rightarrow> [] | Some x \<Rightarrow> [x])
     = (case cur of None \<Rightarrow> [] | Some x \<Rightarrow> [x]) @ started tr"
  by (induction tr cur rule: serial.induct) auto

lemma drain_idle: "in_flight g = [] \<Longrightarrow> drain oks g = g"
  by (cases oks) simp_all

lemma gate_step_Drained_in_flight:
  assumes "gate_inv evs g" and "in_flight g = [r]"
  shows "in_flight (gate_step Exclusive g (Drained r ok)) = take 1 (waiting g)"
    and "waiting (gate_step Exclusive g (Drained r ok)) = tl (waiting g)"
    and "trace (gate_step Exclusive g (Drained r ok))
           = trace g @ Finished r ok # map Started (take 1 (waiting g))"
  using assms(2) by (cases "waiting g"; simp)+

lemma gate_inv_drain:
  "gate_inv evs g \<Longrightarrow> \<exists>evs'. gate_inv evs' (drain oks g) \<and> submitted evs' = submitted evs"
proof (induction oks arbitrary: g evs)
  case Nil
  then show ?case by auto
next
  case (Cons ok oks)
  show ?case
  proof (cases "in_flight g")
    case Nil
    with Cons.prems show ?thesis by auto
  next
    case (Cons r rest)
    have "gate_inv (evs @ [Drained r ok]) (gate_step Exclusive g (Drained r ok))"
      by (rule gate_inv_Drained [OF Cons.prems])
    from Cons.IH [OF this] obtain evs' where
      "gate_inv evs' (drain oks (gate_step Exclusive g (Drained r ok)))"
      and "submitted evs' = submitted (evs @ [Drained r ok])"
      by blast
    with Cons show ?thesis by (auto simp: submitted_append)
  qed
qed

lemma drain_empties:
  "gate_inv evs g \<Longrightarrow> length (waiting g) < length oks \<Longrightarrow> in_flight (drain oks g) = []"
proof (induction oks arbitrary: g evs)
  case Nil
  then show ?case by simp
next
  case (Cons ok oks)
  show ?case
  proof (cases "in_flight g")
    case Nil
    then show ?thesis by simp
  next
    case fl: (Cons r rest)
    then have "r \<in> set (in_flight g)" by simp
    from gate_invD(5) [OF Cons.prems(1) this] have one: "in_flight g = [r]" by simp
    let ?g = "gate_step Exclusive g (Drained r ok)"
    have inv: "gate_inv (evs @ [Drained r ok]) ?g"
      by (rule gate_inv_Drained [OF Cons.prems(1)])
    have d: "drain (ok # oks) g = drain oks ?g"
      using fl by simp
    show ?thesis
    proof (cases "waiting g")
      case Nil
      with gate_step_Drained_in_flight(1) [OF Cons.prems(1) one, of ok]
      have "in_flight ?g = []" by simp
      then show ?thesis unfolding d by (simp add: drain_idle)
    next
      case (Cons q qs)
      with gate_step_Drained_in_flight(2) [OF Cons.prems(1) one, of ok] Cons.prems(2)
      have "length (waiting ?g) < length oks" by simp
      from Cons.IH [OF inv this] show ?thesis unfolding d .
    qed
  qed
qed

text \<open>
  Claim C2. After any sequence of submissions and completions at the Exclusive gate, with
  any mix of success and failure: at most one request is in flight; the upstream calls
  never overlap, and whenever a call starts, every call started before it is finished;
  requests are started in the order of their arrival, the rest waiting in that order,
  and they finish in the order they started. The gate never holds a request back while
  nothing is in flight; when the request in flight completes, with success or with
  failure, the first waiting request is started at once and only that one; and once
  the requests in flight have completed often enough, with whatever results, every
  submitted request has been started and finished, in arrival order.
\<close>

theorem exclusive_gate_serial_fifo:
  "length (in_flight (gate_run Exclusive evs)) \<le> 1
   \<and> serial (trace (gate_run Exclusive evs)) None
   \<and> started (trace (gate_run Exclusive evs)) @ waiting (gate_run Exclusive evs)
       = submitted evs
   \<and> finished (trace (gate_run Exclusive evs)) @ in_flight (gate_run Exclusive evs)
       = started (trace (gate_run Exclusive evs))
   \<and> (\<forall>pre r post. trace (gate_run Exclusive evs) = pre @ Started r # post
         \<longrightarrow> current pre None = None \<and> finished pre = started pre)
   \<and> (in_flight (gate_run Exclusive evs) = [] \<longrightarrow> waiting (gate_run Exclusive evs) = [])
   \<and> (\<forall>r ok. in_flight (gate_run Exclusive evs) = [r] \<longrightarrow>
         in_flight (gate_step Exclusive (gate_run Exclusive evs) (Drained r ok))
           = take 1 (waiting (gate_run Exclusive evs))
         \<and> waiting (gate_step Exclusive (gate_run Exclusive evs) (Drained r ok))
           = tl (waiting (gate_run Exclusive evs))
         \<and> trace (gate_step Exclusive (gate_run Exclusive evs) (Drained r ok))
           = trace (gate_run Exclusive evs)
               @ Finished r ok # map Started (take 1 (waiting (gate_run Exclusive evs))))
   \<and> (\<forall>oks. length (waiting (gate_run Exclusive evs)) < length oks \<longrightarrow>
         in_flight (drain oks (gate_run Exclusive evs)) = []
         \<and> waiting (drain oks (gate_run Exclusive evs)) = []
         \<and> started (trace (drain oks (gate_run Exclusive evs))) = submitted evs
         \<and> finished (trace (drain oks (gate_run Exclusive evs))) = submitted evs)"
proof -
  let ?g = "gate_run Exclusive evs"
  have inv: "gate_inv evs ?g" by (rule gate_inv_run)
  have one: "length (in_flight ?g) \<le> 1"
    using inv by (auto simp: gate_inv_def split: option.splits)
  have split: "\<forall>pre r post. trace ?g = pre @ Started r # post
         \<longrightarrow> current pre None = None \<and> finished pre = started pre"
  proof (intro allI impI)
    fix pre r post
    assume eq: "trace ?g = pre @ Started r # post"
    with gate_invD(1) [OF inv] have "serial (pre @ Started r # post) None" by simp
    then have s: "serial pre None" and c: "current pre None = None"
      by (auto simp: serial_append)
    from serial_finished_started [OF s] c have "finished pre = started pre" by simp
    with c show "current pre None = None \<and> finished pre = started pre" by simp
  qed
  have idle: "in_flight ?g = [] \<longrightarrow> waiting ?g = []"
    using gate_invD(4) [OF inv] by simp
  have release: "\<forall>r ok. in_flight ?g = [r] \<longrightarrow>
         in_flight (gate_step Exclusive ?g (Drained r ok)) = take 1 (waiting ?g)
         \<and> waiting (gate_step Exclusive ?g (Drained r ok)) = tl (waiting ?g)
         \<and> trace (gate_step Exclusive ?g (Drained r ok))
           = trace ?g @ Finished r ok # map Started (take 1 (waiting ?g))"
    using gate_step_Drained_in_flight [OF inv] by blast
  have drained: "\<forall>oks. length (waiting ?g) < length oks \<longrightarrow>
         in_flight (drain oks ?g) = []
         \<and> waiting (drain oks ?g) = []
         \<and> started (trace (drain oks ?g)) = submitted evs
         \<and> finished (trace (drain oks ?g)) = submitted evs"
  proof (intro allI impI)
    fix oks :: "bool list"
    assume len: "length (waiting ?g) < length oks"
    from gate_inv_drain [OF inv, of oks] obtain evs' where
      inv': "gate_inv evs' (drain oks ?g)" and sub: "submitted evs' = submitted evs"
      by blast
    have e: "in_flight (drain oks ?g) = []"
      by (rule drain_empties [OF inv len])
    with gate_invD(4) [OF inv'] have w: "waiting (drain oks ?g) = []" by simp
    from gate_invD(6) [OF inv'] w sub
    have st: "started (trace (drain oks ?g)) = submitted evs" by simp
    from gate_invD(7) [OF inv'] e st
    have "finished (trace (drain oks ?g)) = submitted evs" by simp
    with e w st show "in_flight (drain oks ?g) = []
         \<and> waiting (drain oks ?g) = []
         \<and> started (trace (drain oks ?g)) = submitted evs
         \<and> finished (trace (drain oks ?g)) = submitted evs"
      by simp
  qed
  from one gate_invD(1) [OF inv] gate_invD(6) [OF inv] gate_invD(7) [OF inv] split
    idle release drained
  show ?thesis by (intro conjI)
qed

theorem exclusive_gate_serial_fifo_witness:
  "gate_run Exclusive [Submit 1, Submit 2, Drained 1 True, Submit 3, Drained 2 False]
     = \<lparr>in_flight = [3], waiting = [],
        trace = [Started 1, Finished 1 True, Started 2, Finished 2 False, Started 3]\<rparr>
   \<and> gate_step Exclusive
        (gate_run Exclusive [Submit 1, Submit 2, Drained 1 True, Submit 3, Drained 2 False])
        (Drained 3 False)
     = \<lparr>in_flight = [], waiting = [],
        trace = [Started 1, Finished 1 True, Started 2, Finished 2 False, Started 3,
                 Finished 3 False]\<rparr>
   \<and> length (waiting (gate_run Exclusive [Submit 1, Submit 2, Submit 3]))
       < length [True, False, True]
   \<and> trace (drain [True, False, True] (gate_run Exclusive [Submit 1, Submit 2, Submit 3]))
     = [Started 1, Finished 1 True, Started 2, Finished 2 False, Started 3, Finished 3 True]"
  using exclusive_gate_serial_fifo
          [of "[Submit 1, Submit 2, Drained 1 True, Submit 3, Drained 2 False]"]
    exclusive_gate_serial_fifo [of "[Submit 1, Submit 2, Submit 3]"]
  by (simp add: gate_run_def gate_init_def)

end
